theory Spec2Isabelle
  imports Complex_Main "HOL-Library.Sublist"
begin

section \<open>Data model (src/types/index.ts)\<close>

text \<open>
  Numbers that the code only counts or compares are \<open>nat\<close>/\<open>int\<close>; the certainty
  score, a JSON number clamped to the unit interval, is a rational. Optional fields
  (\<open>field?: T\<close>) are \<open>option\<close> values, \<open>None\<close> standing for \<open>undefined\<close>.
\<close>

record RawTrack =
  raw_index :: int
  timestamp :: "string option"
  rawText :: string

record CleanedTrack =
  index :: rat
  original :: string
  artist :: string
  title :: string
  remixInfo :: "string option"
  certainty :: rat
  isValid :: bool

datatype source = notslider | soundcloud | youtube

datatype quality = kbps320 | kbps256 | kbps192 | kbps128 | unknown

datatype format = mp3 | m4a | opus

record TrackSearchResult =
  track :: CleanedTrack
  found :: bool
  source :: "source option"
  downloadUrl :: "string option"
  quality :: "quality option"
  format :: "format option"
  duration :: "nat option"
  fileSize :: "nat option"
  error :: "string option"

record SourcesUsed =
  su_notslider :: nat
  su_soundcloud :: nat
  su_youtube :: nat

record ProcessingSummary =
  totalTracks :: nat
  foundTracks :: nat
  failedTracks :: nat
  processingTime :: nat
  sourcesUsed :: SourcesUsed
  averageQuality :: quality
  estimatedCost :: rat
  modelUsed :: string

text \<open>
  A number as \<open>parseInt\<close> returns it: an integer of either sign, or \<open>NaN\<close> for a
  text that does not start with a number. Adding \<open>NaN\<close> gives \<open>NaN\<close>, every
  comparison with \<open>NaN\<close> is false, and an array index or bound that is \<open>NaN\<close>
  counts as 0 (\<open>ToIntegerOrInfinity\<close>).
\<close>

datatype number = Finite int | NaN

fun js_add :: "number \<Rightarrow> number \<Rightarrow> number" where
  "js_add (Finite a) (Finite b) = Finite (a + b)"
| "js_add a b = NaN"

fun js_less :: "number \<Rightarrow> number \<Rightarrow> bool" where
  "js_less (Finite a) (Finite b) = (a < b)"
| "js_less a b = False"

fun to_integer :: "number \<Rightarrow> int" where
  "to_integer (Finite a) = a"
| "to_integer NaN = 0"

text \<open>
  The two fields of \<open>WorkerConfig\<close> that the resolution pipeline reads.
  \<open>loadWorkerConfig\<close> fills \<open>MAX_CONCURRENT_SEARCHES\<close> with
  \<open>parseInt(env.MAX_CONCURRENT_SEARCHES || '3')\<close> and checks nothing about it.
\<close>

record WorkerConfig =
  MAX_CONCURRENT_SEARCHES :: number
  NOTSLIDER_BASE_URL :: string

datatype ErrorCode =
  INVALID_URL | YOUTUBE_FETCH_FAILED | NO_TRACKS_FOUND | LLM_PARSE_FAILED
  | RATE_LIMIT_EXCEEDED | TIMEOUT

text \<open>
  A thrown value: a \<open>ServiceError\<close> (code, message, retryable), any other \<open>Error\<close>
  with its message, or a value that is no \<open>Error\<close> at all.
\<close>

datatype thrown = ServiceError ErrorCode string bool | Error string | NonError

text \<open>\<open>error instanceof Error ? error.message : 'Unknown error'\<close>\<close>

fun error_message :: "thrown \<Rightarrow> string" where
  "error_message (ServiceError c m r) = m"
| "error_message (Error m) = m"
| "error_message NonError = ''Unknown error''"

section \<open>The world outside the pipeline\<close>

text \<open>
  What the code reads from its surroundings is explicit state: the clock
  (\<open>Date.now()\<close>, in milliseconds), the rate limiter's \<open>lastRequest\<close> map, the
  replies of the network and a record of the requests and timers issued. Of the
  console and logger output only the warning of the rate limiter is recorded, the
  one thing a call of \<open>throttle\<close> for an unknown service leaves behind; no result
  depends on the rest.

  The n-th \<open>fetch\<close> of a run is answered by \<open>replies n\<close>: the time the request
  takes, and either the value it throws or the response. Theorems hold for every
  such function, so for every way the network can answer.
\<close>

datatype http_method = GET | HEAD

record response =
  ok :: bool
  status :: nat
  statusText :: string
  url :: string
  body :: "thrown + string"

datatype event =
  Fetch http_method string
  | RateWait string nat
  | Backoff nat
  | LimiterWarning string

record world =
  now :: nat
  lastRequest :: "string \<rightharpoonup> nat"
  replies :: "nat \<Rightarrow> nat \<times> (thrown + response)"
  fetched :: nat
  trace :: "event list"

definition emit :: "event \<Rightarrow> world \<Rightarrow> world" where
  "emit e w = w\<lparr>trace := trace w @ [e]\<rparr>"

text \<open>
  \<open>await fetch(url, {method})\<close>: the request is recorded, the clock moves by the
  time the reply takes, and the reply is returned (\<open>Inl\<close> when \<open>fetch\<close> rejects).
\<close>

definition fetch :: "http_method \<Rightarrow> string \<Rightarrow> world \<Rightarrow> (thrown + response) \<times> world" where
  "fetch m u w =
     (let (latency, reply) = replies w (fetched w)
      in (reply, w\<lparr>now := now w + latency, fetched := fetched w + 1,
                     trace := trace w @ [Fetch m u]\<rparr>))"

text \<open>
  \<open>await new Promise(r => setTimeout(r, ms))\<close>: the caller resumes \<open>ms\<close>
  milliseconds later.
\<close>

definition setTimeout :: "nat \<Rightarrow> world \<Rightarrow> world" where
  "setTimeout ms w = w\<lparr>now := now w + ms\<rparr>"

section \<open>RateLimiter (src/utils/rateLimiter.ts)\<close>

record limit =
  rpm :: nat
  delayMs :: nat

definition limits :: "string \<Rightarrow> limit option" where
  "limits service =
     (if service = ''notslider'' then Some \<lparr>rpm = 60, delayMs = 1000\<rparr>
      else if service = ''soundcloud'' then Some \<lparr>rpm = 100, delayMs = 600\<rparr>
      else if service = ''openai'' then Some \<lparr>rpm = 60, delayMs = 1000\<rparr>
      else None)"

text \<open>
  \<open>throttle\<close> has one suspension point, the \<open>await\<close> of the timer. The part
  before it and the part after it are separate definitions, so that the calls of
  several callers can be interleaved at that point; \<open>throttle\<close> itself is their
  composition, the run of a caller that nothing interrupts.

  \<open>throttle_enter\<close> is the code up to the \<open>await\<close>: for a service that is no
  key of \<open>limits\<close> the call warns and returns at once; otherwise the elapsed time is compared
  with the delay. When the delay has passed, no \<open>await\<close> happens and
  \<open>lastRequest\<close> is set at once. (The handler passes the keys \<open>notslider\<close> and
  \<open>soundcloud\<close> only; names that every JavaScript object inherits, such as
  \<open>constructor\<close>, are not modelled as keys.)
\<close>

datatype throttle_state = Returned | Recorded nat | Suspended nat

definition throttle_enter :: "string \<Rightarrow> world \<Rightarrow> throttle_state \<times> world" where
  "throttle_enter service w =
     (case limits service of
        None \<Rightarrow>
          (Returned,
           emit (LimiterWarning (''No rate limit config found for service: '' @ service)) w)
      | Some config \<Rightarrow>
          (let last = (case lastRequest w service of None \<Rightarrow> 0 | Some t \<Rightarrow> t);
               elapsed = int (now w) - int last
           in if elapsed < int (delayMs config)
              then (let waitTime = nat (int (delayMs config) - elapsed)
                    in (Suspended waitTime, emit (RateWait service waitTime) w))
              else (Recorded (now w), w\<lparr>lastRequest := (lastRequest w)(service \<mapsto> now w)\<rparr>)))"

text \<open>After the timer: \<open>this.lastRequest.set(service, Date.now())\<close>.\<close>

definition throttle_resume :: "string \<Rightarrow> world \<Rightarrow> world" where
  "throttle_resume service w = w\<lparr>lastRequest := (lastRequest w)(service \<mapsto> now w)\<rparr>"

definition throttle :: "string \<Rightarrow> world \<Rightarrow> world" where
  "throttle service w =
     (case throttle_enter service w of
        (Suspended waitTime, w1) \<Rightarrow> throttle_resume service (setTimeout waitTime w1)
      | (_, w1) \<Rightarrow> w1)"

subsection \<open>Several callers of \<open>throttle\<close> at once\<close>

text \<open>
  Callers that run side by side, as the searches of one batch do, take turns at
  the \<open>await\<close>. A caller has not called yet, sleeps until its timer is due, has
  passed the limiter at a given time, or was let through for an unknown service.
  \<open>Call k\<close> runs caller \<open>k\<close> up to its \<open>await\<close>; \<open>Timer k\<close> fires its timer,
  no earlier than it is due, and runs the rest of the call. A turn that cannot
  be taken yields \<open>None\<close>.
\<close>

datatype caller = Pending | Asleep nat | Passed nat | Unlimited

datatype turn = Call nat | Timer nat

fun take_turn :: "string \<Rightarrow> turn \<Rightarrow> caller list \<times> world \<Rightarrow> (caller list \<times> world) option" where
  "take_turn service (Call k) (cs, w) =
     (if k < length cs \<and> cs ! k = Pending
      then (case throttle_enter service w of
              (Suspended waitTime, w1) \<Rightarrow> Some (cs[k := Asleep (now w1 + waitTime)], w1)
            | (Recorded tm, w1) \<Rightarrow> Some (cs[k := Passed tm], w1)
            | (Returned, w1) \<Rightarrow> Some (cs[k := Unlimited], w1))
      else None)"
| "take_turn service (Timer k) (cs, w) =
     (if k < length cs
      then (case cs ! k of
              Asleep due \<Rightarrow>
                (let w1 = throttle_resume service (w\<lparr>now := max (now w) due\<rparr>)
                 in Some (cs[k := Passed (now w1)], w1))
            | _ \<Rightarrow> None)
      else None)"

fun run_turns :: "string \<Rightarrow> turn list \<Rightarrow> caller list \<times> world \<Rightarrow> (caller list \<times> world) option" where
  "run_turns service [] st = Some st"
| "run_turns service (x # xs) st =
     (case take_turn service x st of None \<Rightarrow> None | Some st1 \<Rightarrow> run_turns service xs st1)"

text \<open>
  The interval rule for the callers that have passed: any two of them passed at
  least \<open>gap\<close> milliseconds apart.
\<close>

fun passed_at :: "caller list \<Rightarrow> nat list" where
  "passed_at [] = []"
| "passed_at (Passed tm # cs) = tm # passed_at cs"
| "passed_at (c # cs) = passed_at cs"

fun spaced :: "nat \<Rightarrow> nat list \<Rightarrow> bool" where
  "spaced gap [] = True"
| "spaced gap (x # xs) = (list_all (\<lambda>y. x + gap \<le> y \<or> y + gap \<le> x) xs \<and> spaced gap xs)"

section \<open>NotSliderService (src/services/resolver/notsliderService.ts)\<close>

text \<open>
  Two things the service calls are taken as parameters. \<open>encodeURIComponent\<close> is
  the platform's (it throws on a malformed string). \<open>extractDownloadUrl\<close> queries
  the DOM that the cheerio library builds from the page; it catches every error
  itself, so all the search sees of it is a link or \<open>null\<close>.
\<close>

record externals =
  encodeURIComponent :: "string \<Rightarrow> thrown + string"
  extractDownloadUrl :: "string \<Rightarrow> string \<Rightarrow> string option"

text \<open>A number inside a template string: its decimal digits.\<close>

fun decimal :: "nat \<Rightarrow> string" where
  "decimal n =
     (if n < 10 then [''0123456789'' ! n]
      else decimal (n div 10) @ [''0123456789'' ! (n mod 10)])"

definition retryAttempts :: nat where
  "retryAttempts = 2"

definition not_found :: "CleanedTrack \<Rightarrow> string \<Rightarrow> TrackSearchResult" where
  "not_found t e =
     \<lparr>track = t, found = False, source = None, downloadUrl = None, quality = None,
      format = None, duration = None, fileSize = None, error = Some e\<rparr>"

text \<open>\<open>delay(ms)\<close>, the timer between two attempts.\<close>

definition delay :: "nat \<Rightarrow> world \<Rightarrow> world" where
  "delay ms w = setTimeout ms (emit (Backoff ms) w)"

text \<open>
  \<open>followRedirect\<close>: a \<open>HEAD\<close> request; the response's final URL, or the URL
  asked for when the request throws.
\<close>

definition followRedirect :: "string \<Rightarrow> world \<Rightarrow> string \<times> world" where
  "followRedirect u w =
     (case fetch HEAD u w of
        (Inl e, w1) \<Rightarrow> (u, w1)
      | (Inr response, w1) \<Rightarrow> (url response, w1))"

text \<open>
  The body of the \<open>try\<close> block of one attempt. It ends in one of three ways: it
  returns a found result, it falls through to the end of the loop body without a
  link, or it throws into the \<open>catch\<close> block.
\<close>

datatype attempt_outcome = Candidate TrackSearchResult | NoCandidate | Raised thrown

definition try_attempt ::
  "WorkerConfig \<Rightarrow> externals \<Rightarrow> CleanedTrack \<Rightarrow> string \<Rightarrow> world \<Rightarrow> attempt_outcome \<times> world" where
  "try_attempt cfg ext t query w =
     (case encodeURIComponent ext query of
        Inl e \<Rightarrow> (Raised e, w)
      | Inr q \<Rightarrow>
          (case fetch GET (NOTSLIDER_BASE_URL cfg @ ''?q='' @ q) w of
             (Inl e, w1) \<Rightarrow> (Raised e, w1)
           | (Inr response, w1) \<Rightarrow>
               if \<not> ok response
               then (Raised (Error (''HTTP '' @ decimal (status response) @ '': ''
                                    @ statusText response)), w1)
               else
                 (case body response of
                    Inl e \<Rightarrow> (Raised e, w1)
                  | Inr html \<Rightarrow>
                      (case extractDownloadUrl ext html query of
                         None \<Rightarrow> (NoCandidate, w1)
                       | Some link \<Rightarrow>
                           if link = [] then (NoCandidate, w1)
                           else
                             (let (finalUrl, w2) = followRedirect link w1
                              in (Candidate
                                    \<lparr>track = t, found = True, source = Some notslider,
                                     downloadUrl = Some finalUrl, quality = Some kbps320,
                                     format = Some mp3, duration = None, fileSize = None,
                                     error = None\<rparr>, w2))))))"

text \<open>
  The \<open>for\<close> loop over the attempts \<open>0, ..., retryAttempts - 1\<close>, as a recursion
  over the attempts still to make. The \<open>catch\<close> block returns on the last
  attempt and waits \<open>1000 * 2 ^ attempt\<close> otherwise; after the loop the fixed
  message is returned.
\<close>

fun search_attempts ::
  "WorkerConfig \<Rightarrow> externals \<Rightarrow> CleanedTrack \<Rightarrow> string \<Rightarrow> nat list \<Rightarrow> world
     \<Rightarrow> TrackSearchResult \<times> world" where
  "search_attempts cfg ext t query [] w = (not_found t ''No 320kbps MP3 found'', w)"
| "search_attempts cfg ext t query (attempt # rest) w =
     (case try_attempt cfg ext t query w of
        (Candidate r, w1) \<Rightarrow> (r, w1)
      | (NoCandidate, w1) \<Rightarrow> search_attempts cfg ext t query rest w1
      | (Raised e, w1) \<Rightarrow>
          if attempt = retryAttempts - 1
          then (not_found t (''Search failed after '' @ decimal retryAttempts
                             @ '' attempts: '' @ error_message e), w1)
          else search_attempts cfg ext t query rest (delay (1000 * 2 ^ attempt) w1))"

definition NotSliderService_search ::
  "WorkerConfig \<Rightarrow> externals \<Rightarrow> CleanedTrack \<Rightarrow> world \<Rightarrow> TrackSearchResult \<times> world" where
  "NotSliderService_search cfg ext t w =
     search_attempts cfg ext t (artist t @ '' - '' @ title t) [0..<retryAttempts] w"

section \<open>The placeholder services (soundcloudService.ts, youtubeDlService.ts)\<close>

definition SoundCloudService_search :: "CleanedTrack \<Rightarrow> world \<Rightarrow> TrackSearchResult \<times> world" where
  "SoundCloudService_search t w = (not_found t ''SoundCloud integration not yet implemented'', w)"

definition YouTubeDlService_search :: "CleanedTrack \<Rightarrow> world \<Rightarrow> TrackSearchResult \<times> world" where
  "YouTubeDlService_search t w = (not_found t ''yt-dlp service not yet implemented'', w)"

section \<open>The waterfall for one track (src/handlers/analyzeYoutubeMix.ts)\<close>

text \<open>
  The handler holds its three services as fields and calls their \<open>search\<close>
  methods. A service is any function from a track and the world to a result or a
  thrown value; \<open>new_handler\<close> is the constructor, which installs the three
  services of this repository.
\<close>

type_synonym provider = "CleanedTrack \<Rightarrow> world \<Rightarrow> (thrown + TrackSearchResult) \<times> world"

record AnalyzeYoutubeMixHandler =
  config :: WorkerConfig
  notsliderService :: provider
  soundcloudService :: provider
  youtubeDlService :: provider

definition returning :: "'a \<times> world \<Rightarrow> (thrown + 'a) \<times> world" where
  "returning p = (Inr (fst p), snd p)"

definition new_handler :: "WorkerConfig \<Rightarrow> externals \<Rightarrow> AnalyzeYoutubeMixHandler" where
  "new_handler cfg ext =
     \<lparr>config = cfg,
      notsliderService = (\<lambda>t w. returning (NotSliderService_search cfg ext t w)),
      soundcloudService = (\<lambda>t w. returning (SoundCloudService_search t w)),
      youtubeDlService = (\<lambda>t w. returning (YouTubeDlService_search t w))\<rparr>"

text \<open>
  Besides its result, \<open>searchSingleTrack\<close> yields the calls it made, in order:
  each call of \<open>rateLimiter.throttle\<close> with its argument, and each call of a
  service's \<open>search\<close>.
\<close>

datatype service = NotSlider | SoundCloud | YouTubeDl

datatype call = ThrottleCall string | SearchCall service

text \<open>An optional string inside a template string.\<close>

fun interpolate :: "string option \<Rightarrow> string" where
  "interpolate None = ''undefined''"
| "interpolate (Some s) = s"

text \<open>The body of the \<open>try\<close> block: \<open>Inl\<close> when a service throws.\<close>

definition try_waterfall ::
  "AnalyzeYoutubeMixHandler \<Rightarrow> CleanedTrack \<Rightarrow> world
     \<Rightarrow> (thrown + TrackSearchResult) \<times> call list \<times> world" where
  "try_waterfall h t w =
     (let c1 = [ThrottleCall ''notslider'', SearchCall NotSlider];
          c2 = c1 @ [ThrottleCall ''soundcloud'', SearchCall SoundCloud];
          c3 = c2 @ [SearchCall YouTubeDl]
      in case notsliderService h t (throttle ''notslider'' w) of
           (Inl e, w1) \<Rightarrow> (Inl e, c1, w1)
         | (Inr notsliderResult, w1) \<Rightarrow>
             if found notsliderResult then (Inr notsliderResult, c1, w1)
             else
               (case soundcloudService h t (throttle ''soundcloud'' w1) of
                  (Inl e, w2) \<Rightarrow> (Inl e, c2, w2)
                | (Inr soundcloudResult, w2) \<Rightarrow>
                    if found soundcloudResult then (Inr soundcloudResult, c2, w2)
                    else
                      (case youtubeDlService h t w2 of
                         (Inl e, w3) \<Rightarrow> (Inl e, c3, w3)
                       | (Inr youtubeDlResult, w3) \<Rightarrow>
                           if found youtubeDlResult then (Inr youtubeDlResult, c3, w3)
                           else
                             (Inr (not_found t
                                (''Not found on any source. NotSlider: ''
                                 @ interpolate (error notsliderResult)
                                 @ '', SoundCloud: '' @ interpolate (error soundcloudResult)
                                 @ '', YouTube-dl: '' @ interpolate (error youtubeDlResult))),
                              c3, w3))))"

definition searchSingleTrack ::
  "AnalyzeYoutubeMixHandler \<Rightarrow> CleanedTrack \<Rightarrow> world
     \<Rightarrow> TrackSearchResult \<times> call list \<times> world" where
  "searchSingleTrack h t w =
     (case try_waterfall h t w of
        (Inl e, cs, w1) \<Rightarrow> (not_found t (''Search failed: '' @ error_message e), cs, w1)
      | (Inr r, cs, w1) \<Rightarrow> (r, cs, w1))"


text \<open>
  The identifier of a service: the tag it writes into the \<open>source\<close> field of a
  result. For the first two it is also their key in the limiter's table.
\<close>

fun service_id :: "service \<Rightarrow> string" where
  "service_id NotSlider = ''notslider''"
| "service_id SoundCloud = ''soundcloud''"
| "service_id YouTubeDl = ''youtube''"


section \<open>The batches (searchTracksWithWaterfall)\<close>

text \<open>
  \<open>Array.prototype.slice(start, end)\<close>: a negative bound counts from the end of
  the array, and both bounds are clamped to the array.
\<close>

definition slice :: "'a list \<Rightarrow> int \<Rightarrow> int \<Rightarrow> 'a list" where
  "slice xs start end' =
     (let len = int (length xs);
          k = (if start < 0 then max (len + start) 0 else min start len);
          final = (if end' < 0 then max (len + end') 0 else min end' len)
      in take (nat (max (final - k) 0)) (drop (nat k) xs))"

text \<open>
  \<open>batch.map(track => this.searchSingleTrack(track, logger))\<close> starts the
  searches of a batch in the order of the batch. Here each search runs on the world
  the one before it left. The searches of a real batch take turns at their
  \<open>await\<close>s instead, which changes the times at which they wait and which reply
  answers which request; the theorems below hold for every world a search starts
  in and every function \<open>replies\<close>, so they do not depend on that order.
\<close>

fun start_batch ::
  "AnalyzeYoutubeMixHandler \<Rightarrow> CleanedTrack list \<Rightarrow> world \<Rightarrow> TrackSearchResult list \<times> world" where
  "start_batch h [] w = ([], w)"
| "start_batch h (t # ts) w =
     (case searchSingleTrack h t w of
        (r, cs, w1) \<Rightarrow> (case start_batch h ts w1 of (rs, w2) \<Rightarrow> (r # rs, w2)))"

text \<open>
  \<open>Promise.all\<close> keeps an array with one slot for each promise. When the promise
  at position \<open>i\<close> is fulfilled its value is stored in slot \<open>i\<close>, and when every
  slot is filled the array is the result. \<open>order\<close> lists the positions in the
  order in which the promises are fulfilled; \<open>None\<close> means that a slot stays
  empty, so that the combined promise never settles.
\<close>

definition Promise_all :: "nat list \<Rightarrow> 'a list \<Rightarrow> 'a list option" where
  "Promise_all order ps =
     (let slots = foldl (\<lambda>vs i. if i < length ps then vs[i := Some (ps ! i)] else vs)
                    (replicate (length ps) None) order
      in if None \<in> set slots then None else Some (map the slots))"

text \<open>
  The \<open>for\<close> loop, with \<open>i\<close> its counter and \<open>results\<close> the array built so far.
  \<open>schedule i\<close> is the order in which the searches of the batch that starts at
  \<open>i\<close> finish. The function is partial: \<open>None\<close> stands for a loop that never
  ends.
\<close>

partial_function (option) waterfall_loop ::
  "AnalyzeYoutubeMixHandler \<Rightarrow> (number \<Rightarrow> nat list) \<Rightarrow> CleanedTrack list \<Rightarrow> number
     \<Rightarrow> TrackSearchResult list \<Rightarrow> world \<Rightarrow> (TrackSearchResult list \<times> world) option" where
  "waterfall_loop h schedule tracks i results w =
     (if js_less i (Finite (int (length tracks)))
      then
        (case start_batch h
                (slice tracks (to_integer i)
                   (to_integer (js_add i (MAX_CONCURRENT_SEARCHES (config h))))) w of
           (batchPromises, w1) \<Rightarrow>
             (case Promise_all (schedule i) batchPromises of
                None \<Rightarrow> None
              | Some batchResults \<Rightarrow>
                  waterfall_loop h schedule tracks (js_add i (MAX_CONCURRENT_SEARCHES (config h)))
                    (results @ batchResults) w1))
      else Some (results, w))"

declare waterfall_loop.simps [code]

definition searchTracksWithWaterfall ::
  "AnalyzeYoutubeMixHandler \<Rightarrow> (number \<Rightarrow> nat list) \<Rightarrow> CleanedTrack list \<Rightarrow> world
     \<Rightarrow> (TrackSearchResult list \<times> world) option" where
  "searchTracksWithWaterfall h schedule tracks w =
     waterfall_loop h schedule tracks (Finite 0) [] w"

text \<open>A completion order of a batch of \<open>n\<close> searches: each position once.\<close>

definition completion_order :: "nat list \<Rightarrow> nat \<Rightarrow> bool" where
  "completion_order order n = (distinct order \<and> set order = {0..<n})"

section \<open>The cleaned tracks (LLMService.validateAndTransform and step 6 of the handler)\<close>

text \<open>
  The value that \<open>JSON.parse\<close> returns. An object is the list of its members as
  written; of two members with one key the later one counts.
\<close>

datatype json =
  JNull | JBool bool | JNumber rat | JString string
  | JArray "json list" | JObject "(string \<times> json) list"

text \<open>
  \<open>item.key\<close>, for an item that is not \<open>null\<close>: the member of an object, and
  \<open>undefined\<close> for a key the object lacks and for every other kind of value.
\<close>

fun member_of :: "json \<Rightarrow> string \<Rightarrow> json option" where
  "member_of (JObject kvs) k = map_of (rev kvs) k"
| "member_of v k = None"

text \<open>
  The service's string helpers are parameters: \<open>String.prototype.trim\<close>, and
  \<open>cleanArtistName\<close> and \<open>cleanTitle\<close>, which are chains of regular-expression
  replacements that turn one string into another. So is the completion request:
  \<open>completion raw\<close> is what \<open>JSON.parse\<close> makes of the model's answer to the
  prompt followed by the text \<open>raw\<close>, or the value thrown on the way.
\<close>

record LLMService =
  completion :: "string \<Rightarrow> thrown + json"
  trim :: "string \<Rightarrow> string"
  cleanArtistName :: "string \<Rightarrow> string"
  cleanTitle :: "string \<Rightarrow> string"

text \<open>
  The callback of \<open>rawResponse.map\<close>. Reading a property of \<open>null\<close> throws a
  \<open>TypeError\<close>.
\<close>

definition transform_item :: "LLMService \<Rightarrow> nat \<Rightarrow> json \<Rightarrow> thrown + CleanedTrack" where
  "transform_item svc i item =
     (if item = JNull then Inl (Error ''Cannot read properties of null'')
      else
        (case (member_of item ''index'', member_of item ''artist'', member_of item ''title'') of
           (Some (JNumber n), Some (JString a), Some (JString b)) \<Rightarrow>
             (let certainty = (case member_of item ''certainty'' of
                                 Some (JNumber c) \<Rightarrow> max 0 (min 1 c)
                               | _ \<Rightarrow> 1 / 2);
                  remixInfo = (case member_of item ''remixInfo'' of
                                 Some (JString r) \<Rightarrow> if r = [] then None else Some (trim svc r)
                               | _ \<Rightarrow> None)
              in Inr \<lparr>index = n, original = a @ '' - '' @ b,
                      artist = cleanArtistName svc a, title = cleanTitle svc b,
                      remixInfo = remixInfo, certainty = certainty,
                      isValid = (certainty \<ge> 1 / 2)\<rparr>)
         | _ \<Rightarrow>
             Inl (ServiceError LLM_PARSE_FAILED
                    (''Invalid track data at index '' @ decimal i @ '': missing required fields'')
                    False)))"

text \<open>\<open>Array.prototype.map\<close> with a callback that may throw: the first throw ends it.\<close>

fun map_items :: "(nat \<Rightarrow> 'a \<Rightarrow> thrown + 'b) \<Rightarrow> nat \<Rightarrow> 'a list \<Rightarrow> thrown + 'b list" where
  "map_items f i [] = Inr []"
| "map_items f i (x # xs) =
     (case f i x of
        Inl e \<Rightarrow> Inl e
      | Inr y \<Rightarrow> (case map_items f (Suc i) xs of Inl e \<Rightarrow> Inl e | Inr ys \<Rightarrow> Inr (y # ys)))"

definition validateAndTransform :: "LLMService \<Rightarrow> json \<Rightarrow> thrown + CleanedTrack list" where
  "validateAndTransform svc rawResponse =
     (case rawResponse of
        JArray items \<Rightarrow> map_items (transform_item svc) 0 items
      | _ \<Rightarrow> Inl (ServiceError LLM_PARSE_FAILED ''LLM response is not an array'' False))"

text \<open>The \<open>catch\<close> block of \<open>parseTracklist\<close>.\<close>

fun rethrow :: "thrown \<Rightarrow> thrown" where
  "rethrow (ServiceError c m r) = ServiceError c m r"
| "rethrow e =
     ServiceError LLM_PARSE_FAILED (''Failed to parse tracklist: '' @ error_message e) True"

definition parseTracklist :: "LLMService \<Rightarrow> string \<Rightarrow> thrown + CleanedTrack list" where
  "parseTracklist svc raw =
     (case completion svc raw of
        Inl e \<Rightarrow> Inl (rethrow e)
      | Inr v \<Rightarrow>
          (case validateAndTransform svc v of
             Inl e \<Rightarrow> Inl (rethrow e)
           | Inr ts \<Rightarrow> Inr ts))"

text \<open>\<open>String.prototype.split\<close> with a separator, and \<open>Array.prototype.join\<close>.\<close>

function split_from :: "string \<Rightarrow> string \<Rightarrow> string \<Rightarrow> string list" where
  "split_from sep acc s =
     (if s = [] then [acc]
      else if sep \<noteq> [] \<and> take (length sep) s = sep
           then acc # split_from sep [] (drop (length sep) s)
           else split_from sep (acc @ [hd s]) (tl s))"
  by pat_completeness auto
termination
  by (relation "measure (\<lambda>(sep, acc, s). length s)") auto

definition split :: "string \<Rightarrow> string \<Rightarrow> string list" where
  "split s sep = split_from sep [] s"

fun join :: "string list \<Rightarrow> string \<Rightarrow> string" where
  "join [] sep = []"
| "join [x] sep = x"
| "join (x # y # ys) sep = x @ sep @ join (y # ys) sep"

text \<open>\<open>a || b\<close> on strings: the empty string is falsy.\<close>

definition or_else :: "string \<Rightarrow> string \<Rightarrow> string" where
  "or_else a b = (if a = [] then b else a)"

text \<open>
  The track that the handler builds from a raw track when the cleanup is skipped.
  The certainty is the literal \<open>0.3\<close>.
\<close>

definition raw_to_cleaned :: "RawTrack \<Rightarrow> CleanedTrack" where
  "raw_to_cleaned t =
     \<lparr>index = of_int (raw_index t), original = rawText t,
      artist = or_else (case split (rawText t) '' - '' of [] \<Rightarrow> [] | x # xs \<Rightarrow> x)
                  ''Unknown Artist'',
      title = or_else (join (tl (split (rawText t) '' - '')) '' - '') ''Unknown Title'',
      remixInfo = None, certainty = 3 / 10, isValid = True\<rparr>"

text \<open>Step 6 of \<open>handle\<close>: the cleaned tracks that go into the search.\<close>

definition clean_tracks :: "LLMService \<Rightarrow> bool \<Rightarrow> RawTrack list \<Rightarrow> thrown + CleanedTrack list" where
  "clean_tracks svc skipLLMCleanup rawTracks =
     (if \<not> skipLLMCleanup
      then parseTracklist svc (join (map rawText rawTracks) [CHR 0x0A])
      else Inr (map raw_to_cleaned rawTracks))"

section \<open>The summary (calculateSummary)\<close>

text \<open>
  \<open>qualityCounts\<close> is an object used as a table: its keys in the order in which
  they were first written. \<open>tally\<close> is the body of the \<open>reduce\<close> that fills it.
\<close>

fun tally :: "(quality \<times> nat) list \<Rightarrow> quality \<Rightarrow> (quality \<times> nat) list" where
  "tally [] q = [(q, 1)]"
| "tally ((k, n) # acc) q = (if k = q then (k, n + 1) # acc else (k, n) # tally acc q)"

definition count_of :: "(quality \<times> nat) list \<Rightarrow> quality \<Rightarrow> nat" where
  "count_of counts q = (case map_of counts q of None \<Rightarrow> 0 | Some n \<Rightarrow> n)"

definition calculateSummary :: "TrackSearchResult list \<Rightarrow> nat \<Rightarrow> ProcessingSummary" where
  "calculateSummary results time =
     (let found' = filter found results;
          failed = filter (\<lambda>r. \<not> found r) results;
          qualityCounts = foldl tally [] (map the (filter (\<lambda>q. q \<noteq> None) (map quality found')));
          average = (case qualityCounts of
                       [] \<Rightarrow> unknown
                     | e # es \<Rightarrow>
                         fst (foldl (\<lambda>a b. if count_of qualityCounts (fst a)
                                                > count_of qualityCounts (fst b) then a else b)
                                e es))
      in \<lparr>totalTracks = length results,
          foundTracks = length found',
          failedTracks = length failed,
          processingTime = time,
          sourcesUsed =
            \<lparr>su_notslider = length (filter (\<lambda>r. source r = Some notslider) found'),
             su_soundcloud = length (filter (\<lambda>r. source r = Some soundcloud) found'),
             su_youtube = length (filter (\<lambda>r. source r = Some youtube) found')\<rparr>,
          averageQuality = average,
          estimatedCost = 8 / 10000,
          modelUsed = ''gpt-4o-mini''\<rparr>)"

section \<open>The invariant of a search result\<close>

text \<open>
  The invariant that the specification states for a \<open>SearchResult\<close>: it is found
  exactly when it has a download URL, it has a source exactly when it is found,
  and the source of a found result is one of the providers.
\<close>

definition provider_ids :: "source list" where
  "provider_ids = [notslider, soundcloud, youtube]"

definition SearchResult_invariant :: "TrackSearchResult \<Rightarrow> bool" where
  "SearchResult_invariant r =
     ((found r \<longleftrightarrow> downloadUrl r \<noteq> None)
      \<and> (source r \<noteq> None \<longleftrightarrow> found r)
      \<and> (found r \<longrightarrow> (\<exists>p \<in> set provider_ids. source r = Some p)))"

text \<open>
  A network whose responses all carry a URL, as the responses of \<open>fetch\<close> do: the
  URL of a fetched response is the address the request ended at.
\<close>

definition urls_present :: "(nat \<Rightarrow> nat \<times> (thrown + response)) \<Rightarrow> bool" where
  "urls_present rs = (\<forall>n latency rsp. rs n = (latency, Inr rsp) \<longrightarrow> url rsp \<noteq> [])"

section \<open>Example inputs\<close>

definition example_config :: WorkerConfig where
  "example_config =
     \<lparr>MAX_CONCURRENT_SEARCHES = Finite 3, NOTSLIDER_BASE_URL = ''https://notslider.nl''\<rparr>"

text \<open>In the examples the body of a result page is the link it offers, if any.\<close>

definition example_externals :: externals where
  "example_externals =
     \<lparr>encodeURIComponent = Inr,
      extractDownloadUrl = (\<lambda>html query. if html = [] then None else Some html)\<rparr>"

definition example_track :: "rat \<Rightarrow> string \<Rightarrow> string \<Rightarrow> CleanedTrack" where
  "example_track n a b =
     \<lparr>index = n, original = a @ '' - '' @ b, artist = a, title = b, remixInfo = None,
      certainty = 9 / 10, isValid = True\<rparr>"

definition example_tracks :: "CleanedTrack list" where
  "example_tracks =
     [example_track 1 ''Daft Punk'' ''One More Time'', example_track 2 ''Moby'' ''Porcelain'',
      example_track 3 ''Orbital'' ''Halcyon'', example_track 4 ''Underworld'' ''Born Slippy'']"

text \<open>A fresh limiter at time 5000, on a network that answers as \<open>rs\<close> says.\<close>

definition fresh_world :: "(nat \<Rightarrow> nat \<times> (thrown + response)) \<Rightarrow> world" where
  "fresh_world rs = \<lparr>now = 5000, lastRequest = Map.empty, replies = rs, fetched = 0, trace = []\<rparr>"

definition page :: "string \<Rightarrow> string \<Rightarrow> thrown + response" where
  "page final html =
     Inr \<lparr>ok = True, status = 200, statusText = ''OK'', url = final, body = Inr html\<rparr>"

text \<open>Every request fails; every page offers a link; every page is without a link.\<close>

definition offline :: "nat \<Rightarrow> nat \<times> (thrown + response)" where
  "offline n = (30, Inl (Error ''fetch failed''))"

definition with_link :: "nat \<Rightarrow> nat \<times> (thrown + response)" where
  "with_link n = (120, page ''https://cdn.notslider.nl/file.mp3'' ''https://notslider.nl/dl/1'')"


text \<open>
  A handler with stand-in services, of which only \<open>finder\<close> finds the track. Each
  of them sends one request to an address of its own, so that the trace shows
  which of them ran.
\<close>

fun source_of :: "service \<Rightarrow> source" where
  "source_of NotSlider = notslider"
| "source_of SoundCloud = soundcloud"
| "source_of YouTubeDl = youtube"

definition found_by :: "service \<Rightarrow> CleanedTrack \<Rightarrow> TrackSearchResult" where
  "found_by p t =
     \<lparr>track = t, found = True, source = Some (source_of p),
      downloadUrl = Some ''https://files.example/1.mp3'', quality = Some kbps128,
      format = Some mp3, duration = None, fileSize = None, error = None\<rparr>"

definition stand_in :: "service \<Rightarrow> service \<Rightarrow> provider" where
  "stand_in finder p t w =
     (if p = finder then Inr (found_by p t) else Inr (not_found t ''nothing here''),
      emit (Fetch GET (''https://stand-in.example/'' @ service_id p)) w)"

definition stand_in_handler :: "service \<Rightarrow> AnalyzeYoutubeMixHandler" where
  "stand_in_handler finder =
     \<lparr>config = example_config,
      notsliderService = stand_in finder NotSlider,
      soundcloudService = stand_in finder SoundCloud,
      youtubeDlService = stand_in finder YouTubeDl\<rparr>"

text \<open>A cleanup service whose model answers with two tracks, and two raw tracks.\<close>

definition example_service :: LLMService where
  "example_service =
     \<lparr>completion = (\<lambda>raw. Inr (JArray
        [JObject [(''index'', JNumber 1), (''artist'', JString ''Daft Punk''),
                  (''title'', JString ''One More Time''), (''certainty'', JNumber (2 / 5))],
         JObject [(''index'', JNumber 2), (''artist'', JString ''Moby''),
                  (''title'', JString ''Porcelain''), (''certainty'', JNumber (19 / 20))]])),
      trim = id, cleanArtistName = id, cleanTitle = id\<rparr>"

definition example_raw :: "RawTrack list" where
  "example_raw =
     [\<lparr>raw_index = 1, timestamp = Some ''0:00'', rawText = ''Daft Punk - One More Time''\<rparr>,
      \<lparr>raw_index = 2, timestamp = Some ''5:20'', rawText = ''Moby - Porcelain''\<rparr>]"

text \<open>The searches of every batch finish in the reverse of the order they started in.\<close>

definition last_first :: "CleanedTrack list \<Rightarrow> number \<Rightarrow> number \<Rightarrow> nat list" where
  "last_first tracks c i =
     rev [0..<length (slice tracks (to_integer i) (to_integer (js_add i c)))]"

section \<open>Results: the rate limiter\<close>

text \<open>
  A caller that nothing interrupts keeps the interval: when the limiter recorded a
  request at \<open>t0\<close>, the next call returns no earlier than \<open>t0\<close> plus the delay of
  the service, and records the time at which it returns.
\<close>

lemma throttle_alone_keeps_interval:
  assumes "limits service = Some c" and "lastRequest w service = Some t0" and "t0 \<le> now w"
  shows "t0 + delayMs c \<le> now (throttle service w)
         \<and> lastRequest (throttle service w) service = Some (now (throttle service w))"
  using assms
  by (auto simp: throttle_def throttle_enter_def throttle_resume_def setTimeout_def emit_def Let_def)



text \<open>
  Claim C3 says that callers of \<open>throttle\<close> for one service that run side by side
  are serialized, so that no two of them pass the limiter less than the delay of
  the service apart. The three searches of a first batch call \<open>throttle\<close> for
  \<open>notslider\<close> on a fresh limiter one after the other, before any timer has
  fired. The first passes at once, at 5000. The second and the third both read
  the time the first recorded, both wait 1000 ms, and both pass at 6000: nothing
  is written between the reading and the waiting of a caller.
\<close>

theorem throttle_callers_pass_together:
  "map_option fst
     (run_turns ''notslider'' [Call 0, Call 1, Call 2, Timer 1, Timer 2]
        (replicate 3 Pending, fresh_world offline))
   = Some [Passed 5000, Passed 6000, Passed 6000]
   \<and> \<not> spaced 1000 (passed_at [Passed 5000, Passed 6000, Passed 6000])"
  by (simp add: throttle_enter_def throttle_resume_def limits_def fresh_world_def emit_def
      numeral_3_eq_3)

section \<open>Results: the attempts of the NotSlider search\<close>

lemma upt_retryAttempts: "[0..<retryAttempts] = [0, 1]"
  by (simp add: retryAttempts_def upt_rec)




text \<open>When both requests throw, the wait is there.\<close>

lemma backoff_after_error:
  "trace (snd (NotSliderService_search example_config example_externals
          (example_track 1 ''Daft Punk'' ''One More Time'') (fresh_world offline)))
     = [Fetch GET ''https://notslider.nl?q=Daft Punk - One More Time'', Backoff 1000,
        Fetch GET ''https://notslider.nl?q=Daft Punk - One More Time'']"
  unfolding NotSliderService_search_def upt_retryAttempts
  by (simp add: try_attempt_def example_externals_def example_config_def example_track_def
      fetch_def offline_def fresh_world_def retryAttempts_def delay_def setTimeout_def emit_def)


lemma NotSlider_with_link:
  "replies w = with_link \<Longrightarrow>
   fst (NotSliderService_search example_config example_externals t w) =
     \<lparr>track = t, found = True, source = Some notslider,
      downloadUrl = Some ''https://cdn.notslider.nl/file.mp3'', quality = Some kbps320,
      format = Some mp3, duration = None, fileSize = None, error = None\<rparr>"
  unfolding NotSliderService_search_def upt_retryAttempts
  by (simp add: try_attempt_def example_externals_def fetch_def with_link_def page_def
      followRedirect_def)

section \<open>Results: the network is read, never changed\<close>

lemma replies_throttle [simp]: "replies (throttle s w) = replies w"
  by (simp add: throttle_def throttle_enter_def throttle_resume_def setTimeout_def emit_def Let_def
      split: option.splits)

lemma replies_try_attempt [simp]:
  "replies (snd (try_attempt cfg ext t q w)) = replies w"
  by (auto simp: try_attempt_def followRedirect_def fetch_def
      split: sum.splits prod.splits option.splits)

lemma replies_search_attempts [simp]:
  "replies (snd (search_attempts cfg ext t q as w)) = replies w"
proof (induction as arbitrary: w)
  case Nil
  show ?case by simp
next
  case (Cons a as)
  have "replies (snd (try_attempt cfg ext t q w)) = replies w" by simp
  then show ?case
    by (cases "try_attempt cfg ext t q w")
      (auto simp: Cons.IH delay_def setTimeout_def emit_def split: attempt_outcome.splits)
qed

section \<open>Results: the waterfall for one track\<close>

text \<open>With the services of this repository the waterfall has two outcomes.\<close>

lemma searchSingleTrack_new_handler:
  "searchSingleTrack (new_handler cfg ext) t w =
     (case NotSliderService_search cfg ext t (throttle ''notslider'' w) of
        (r1, w1) \<Rightarrow>
          if found r1 then (r1, [ThrottleCall ''notslider'', SearchCall NotSlider], w1)
          else (not_found t
                  (''Not found on any source. NotSlider: '' @ interpolate (error r1)
                   @ '', SoundCloud: SoundCloud integration not yet implemented''
                   @ '', YouTube-dl: yt-dlp service not yet implemented''),
                [ThrottleCall ''notslider'', SearchCall NotSlider,
                 ThrottleCall ''soundcloud'', SearchCall SoundCloud, SearchCall YouTubeDl],
                throttle ''soundcloud'' w1))"
  by (simp add: searchSingleTrack_def try_waterfall_def new_handler_def returning_def
      SoundCloudService_search_def YouTubeDlService_search_def not_found_def
      split: prod.splits)




text \<open>
  Claim C8. For any three services: when the NotSlider search returns a found
  result, that result is returned as it is, the world returned is the one the
  NotSlider search left, and the outcome is the same whatever the SoundCloud and
  YouTube-dl services are, so neither of them is searched. When NotSlider finds
  nothing and SoundCloud returns a found result, that result is returned as it
  is, the world returned is the one the SoundCloud search left, and the outcome is
  the same whatever the YouTube-dl service is. When only YouTube-dl returns a
  found result, that result is returned as it is, with the world it left.
\<close>

theorem first_found_is_returned:
  "(\<forall>r w1. notsliderService h t (throttle ''notslider'' w) = (Inr r, w1) \<and> found r \<longrightarrow>
        fst (searchSingleTrack h t w) = r
        \<and> snd (snd (searchSingleTrack h t w)) = w1
        \<and> (\<forall>sc yd. searchSingleTrack (h\<lparr>soundcloudService := sc, youtubeDlService := yd\<rparr>) t w
                      = searchSingleTrack h t w)
        \<and> SearchCall SoundCloud \<notin> set (fst (snd (searchSingleTrack h t w)))
        \<and> SearchCall YouTubeDl \<notin> set (fst (snd (searchSingleTrack h t w))))
   \<and> (\<forall>r1 w1 r w2. notsliderService h t (throttle ''notslider'' w) = (Inr r1, w1) \<and> \<not> found r1
          \<and> soundcloudService h t (throttle ''soundcloud'' w1) = (Inr r, w2) \<and> found r \<longrightarrow>
        fst (searchSingleTrack h t w) = r
        \<and> snd (snd (searchSingleTrack h t w)) = w2
        \<and> (\<forall>yd. searchSingleTrack (h\<lparr>youtubeDlService := yd\<rparr>) t w = searchSingleTrack h t w)
        \<and> SearchCall YouTubeDl \<notin> set (fst (snd (searchSingleTrack h t w))))
   \<and> (\<forall>r1 w1 r2 w2 r w3. notsliderService h t (throttle ''notslider'' w) = (Inr r1, w1)
          \<and> \<not> found r1
          \<and> soundcloudService h t (throttle ''soundcloud'' w1) = (Inr r2, w2) \<and> \<not> found r2
          \<and> youtubeDlService h t w2 = (Inr r, w3) \<and> found r \<longrightarrow>
        fst (searchSingleTrack h t w) = r
        \<and> snd (snd (searchSingleTrack h t w)) = w3)"
  by (auto simp: searchSingleTrack_def try_waterfall_def Let_def split: prod.splits sum.splits)

text \<open>
  The three cases at concrete inputs. The services of the repository on a network
  whose pages offer a link: the trace ends with the two requests of the NotSlider
  search. The stand-in services of which the second, or the third, finds the
  track: the trace holds the requests of the services up to the finder, and of
  no later one.
\<close>

theorem first_found_is_returned_witness:
  "(fst (searchSingleTrack (new_handler example_config example_externals)
          (example_track 1 ''Daft Punk'' ''One More Time'') (fresh_world with_link))
      = \<lparr>track = example_track 1 ''Daft Punk'' ''One More Time'', found = True,
         source = Some notslider, downloadUrl = Some ''https://cdn.notslider.nl/file.mp3'',
         quality = Some kbps320, format = Some mp3, duration = None, fileSize = None,
         error = None\<rparr>
    \<and> trace (snd (snd (searchSingleTrack (new_handler example_config example_externals)
          (example_track 1 ''Daft Punk'' ''One More Time'') (fresh_world with_link))))
      = [Fetch GET ''https://notslider.nl?q=Daft Punk - One More Time'',
         Fetch HEAD ''https://notslider.nl/dl/1'']
    \<and> SearchCall SoundCloud \<notin> set (fst (snd (searchSingleTrack
          (new_handler example_config example_externals)
          (example_track 1 ''Daft Punk'' ''One More Time'') (fresh_world with_link))))
    \<and> SearchCall YouTubeDl \<notin> set (fst (snd (searchSingleTrack
          (new_handler example_config example_externals)
          (example_track 1 ''Daft Punk'' ''One More Time'') (fresh_world with_link)))))
   \<and> (fst (searchSingleTrack (stand_in_handler SoundCloud)
          (example_track 2 ''Moby'' ''Porcelain'') (fresh_world offline))
      = found_by SoundCloud (example_track 2 ''Moby'' ''Porcelain'')
    \<and> trace (snd (snd (searchSingleTrack (stand_in_handler SoundCloud)
          (example_track 2 ''Moby'' ''Porcelain'') (fresh_world offline))))
      = [Fetch GET ''https://stand-in.example/notslider'',
         Fetch GET ''https://stand-in.example/soundcloud'']
    \<and> SearchCall YouTubeDl \<notin> set (fst (snd (searchSingleTrack (stand_in_handler SoundCloud)
          (example_track 2 ''Moby'' ''Porcelain'') (fresh_world offline)))))
   \<and> (fst (searchSingleTrack (stand_in_handler YouTubeDl)
          (example_track 3 ''Orbital'' ''Halcyon'') (fresh_world offline))
      = found_by YouTubeDl (example_track 3 ''Orbital'' ''Halcyon'')
    \<and> trace (snd (snd (searchSingleTrack (stand_in_handler YouTubeDl)
          (example_track 3 ''Orbital'' ''Halcyon'') (fresh_world offline))))
      = [Fetch GET ''https://stand-in.example/notslider'',
         Fetch GET ''https://stand-in.example/soundcloud'',
         Fetch GET ''https://stand-in.example/youtube''])"
proof -
  let ?h = "new_handler example_config example_externals"
  let ?t = "example_track 1 ''Daft Punk'' ''One More Time''"
  let ?r = "\<lparr>track = ?t, found = True,
         source = Some notslider, downloadUrl = Some ''https://cdn.notslider.nl/file.mp3'',
         quality = Some kbps320, format = Some mp3, duration = None, fileSize = None,
         error = None\<rparr>"
  let ?ns = "NotSliderService_search example_config example_externals ?t
               (throttle ''notslider'' (fresh_world with_link))"
  have "replies (throttle ''notslider'' (fresh_world with_link)) = with_link"
    by (simp add: fresh_world_def)
  from NotSlider_with_link[OF this, of ?t]
  have "notsliderService ?h ?t (throttle ''notslider'' (fresh_world with_link)) = (Inr ?r, snd ?ns)
        \<and> found ?r"
    by (simp add: new_handler_def returning_def)
  with first_found_is_returned[of ?h ?t "fresh_world with_link"]
  have one: "fst (searchSingleTrack ?h ?t (fresh_world with_link)) = ?r
        \<and> snd (snd (searchSingleTrack ?h ?t (fresh_world with_link))) = snd ?ns
        \<and> SearchCall SoundCloud \<notin> set (fst (snd (searchSingleTrack ?h ?t (fresh_world with_link))))
        \<and> SearchCall YouTubeDl \<notin> set (fst (snd (searchSingleTrack ?h ?t (fresh_world with_link))))"
    by blast
  have tr: "trace (snd ?ns) = [Fetch GET ''https://notslider.nl?q=Daft Punk - One More Time'',
                               Fetch HEAD ''https://notslider.nl/dl/1'']"
    unfolding NotSliderService_search_def upt_retryAttempts
    by (simp add: try_attempt_def example_externals_def example_config_def example_track_def
        fetch_def with_link_def page_def followRedirect_def fresh_world_def
        throttle_def throttle_enter_def limits_def)
  let ?u = "example_track 2 ''Moby'' ''Porcelain''"
  let ?w0 = "throttle ''notslider'' (fresh_world offline)"
  let ?w1 = "emit (Fetch GET ''https://stand-in.example/notslider'') ?w0"
  let ?w2 = "emit (Fetch GET ''https://stand-in.example/soundcloud'') (throttle ''soundcloud'' ?w1)"
  have "notsliderService (stand_in_handler SoundCloud) ?u ?w0
          = (Inr (not_found ?u ''nothing here''), ?w1)
        \<and> \<not> found (not_found ?u ''nothing here'')
        \<and> soundcloudService (stand_in_handler SoundCloud) ?u (throttle ''soundcloud'' ?w1)
            = (Inr (found_by SoundCloud ?u), ?w2)
        \<and> found (found_by SoundCloud ?u)"
    by (simp add: stand_in_handler_def stand_in_def not_found_def found_by_def)
  with first_found_is_returned[of "stand_in_handler SoundCloud" ?u "fresh_world offline"]
  have two: "fst (searchSingleTrack (stand_in_handler SoundCloud) ?u (fresh_world offline))
          = found_by SoundCloud ?u
        \<and> snd (snd (searchSingleTrack (stand_in_handler SoundCloud) ?u (fresh_world offline))) = ?w2
        \<and> SearchCall YouTubeDl \<notin> set (fst (snd (searchSingleTrack (stand_in_handler SoundCloud) ?u
              (fresh_world offline))))"
    by blast
  have tr2: "trace ?w2 = [Fetch GET ''https://stand-in.example/notslider'',
                          Fetch GET ''https://stand-in.example/soundcloud'']"
    by (simp add: emit_def throttle_def throttle_enter_def limits_def fresh_world_def)
  let ?v = "example_track 3 ''Orbital'' ''Halcyon''"
  let ?w3 = "emit (Fetch GET ''https://stand-in.example/youtube'') ?w2"
  have "notsliderService (stand_in_handler YouTubeDl) ?v ?w0
          = (Inr (not_found ?v ''nothing here''), ?w1)
        \<and> \<not> found (not_found ?v ''nothing here'')
        \<and> soundcloudService (stand_in_handler YouTubeDl) ?v (throttle ''soundcloud'' ?w1)
            = (Inr (not_found ?v ''nothing here''), ?w2)
        \<and> youtubeDlService (stand_in_handler YouTubeDl) ?v ?w2 = (Inr (found_by YouTubeDl ?v), ?w3)
        \<and> found (found_by YouTubeDl ?v)"
    by (simp add: stand_in_handler_def stand_in_def not_found_def found_by_def)
  with first_found_is_returned[of "stand_in_handler YouTubeDl" ?v "fresh_world offline"]
  have three: "fst (searchSingleTrack (stand_in_handler YouTubeDl) ?v (fresh_world offline))
          = found_by YouTubeDl ?v
        \<and> snd (snd (searchSingleTrack (stand_in_handler YouTubeDl) ?v (fresh_world offline))) = ?w3"
    by blast
  have tr3: "trace ?w3 = [Fetch GET ''https://stand-in.example/notslider'',
                          Fetch GET ''https://stand-in.example/soundcloud'',
                          Fetch GET ''https://stand-in.example/youtube'']"
    by (simp add: emit_def throttle_def throttle_enter_def limits_def fresh_world_def)
  from one tr two tr2 three tr3 show ?thesis by simp
qed



section \<open>Results: the batches\<close>

lemma track_try_attempt:
  "try_attempt cfg ext t q w = (Candidate r, w') \<Longrightarrow> track r = t"
  by (auto simp: try_attempt_def split: sum.splits prod.splits if_splits option.splits)

lemma track_not_found [simp]: "track (not_found t e) = t"
  by (simp add: not_found_def)

lemma track_search_attempts:
  "track (fst (search_attempts cfg ext t q as w)) = t"
proof (induction as arbitrary: w)
  case Nil
  show ?case by simp
next
  case (Cons a as)
  obtain out w1 where ta: "try_attempt cfg ext t q w = (out, w1)"
    by (cases "try_attempt cfg ext t q w")
  show ?case
  proof (cases out)
    case (Candidate r)
    with ta track_try_attempt[of cfg ext t q w r w1] show ?thesis by simp
  next
    case NoCandidate
    with ta Cons.IH show ?thesis by simp
  next
    case (Raised e)
    with ta Cons.IH show ?thesis by simp
  qed
qed

lemma track_searchSingleTrack:
  "track (fst (searchSingleTrack (new_handler cfg ext) t w)) = t"
  using track_search_attempts[of cfg ext t "artist t @ '' - '' @ title t" "[0..<retryAttempts]" "throttle ''notslider'' w"]
  by (auto simp: searchSingleTrack_new_handler NotSliderService_search_def split: prod.splits)

lemma track_start_batch:
  "map track (fst (start_batch (new_handler cfg ext) ts w)) = ts"
proof (induction ts arbitrary: w)
  case Nil
  show ?case by simp
next
  case (Cons t ts)
  obtain r cs w1 where s: "searchSingleTrack (new_handler cfg ext) t w = (r, cs, w1)"
    by (cases "searchSingleTrack (new_handler cfg ext) t w")
  with track_searchSingleTrack[of cfg ext t w] have "track r = t" by simp
  with s Cons.IH[of w1] show ?case by (auto split: prod.splits)
qed

lemma fill_slots:
  "length slots = length ps \<Longrightarrow> j < length ps \<Longrightarrow>
   length (foldl (\<lambda>vs i. if i < length ps then vs[i := Some (ps ! i)] else vs) slots order) = length ps \<and>
   foldl (\<lambda>vs i. if i < length ps then vs[i := Some (ps ! i)] else vs) slots order ! j
     = (if j \<in> set order then Some (ps ! j) else slots ! j)"
proof (induction order arbitrary: slots)
  case Nil
  then show ?case by simp
next
  case (Cons i order)
  then show ?case by (auto simp: nth_list_update)
qed

lemma Promise_all_complete:
  assumes "completion_order order (length ps)"
  shows "Promise_all order ps = Some ps"
proof -
  let ?slots = "foldl (\<lambda>vs i. if i < length ps then vs[i := Some (ps ! i)] else vs)
                  (replicate (length ps) None) order"
  have len: "length ?slots = length ps"
  proof (cases ps)
    case Nil
    then show ?thesis by (induction order) simp_all
  next
    case (Cons p ps')
    then have "0 < length ps" by simp
    with fill_slots[of "replicate (length ps) None" ps 0 order] show ?thesis by simp
  qed
  have "?slots ! j = Some (ps ! j)" if "j < length ps" for j
    using that assms fill_slots[of "replicate (length ps) None" ps j order]
    by (simp add: completion_order_def)
  with len have "?slots = map Some ps"
    by (simp add: list_eq_iff_nth_eq)
  then show ?thesis
    by (auto simp: Promise_all_def Let_def comp_def)
qed

lemma slice_batch:
  "0 \<le> i \<Longrightarrow> i < int (length xs) \<Longrightarrow> 0 < c \<Longrightarrow>
   slice xs i (i + c) = take (nat c) (drop (nat i) xs)"
  by (auto simp: slice_def Let_def min_def max_def)

lemma waterfall_loop_total:
  assumes mc: "MAX_CONCURRENT_SEARCHES cfg = Finite c" "0 < c"
    and sch: "\<forall>k. completion_order (schedule (Finite k)) (length (slice tracks k (k + c)))"
  shows "0 \<le> k \<Longrightarrow>
    \<exists>rs w'. waterfall_loop (new_handler cfg ext) schedule tracks (Finite k) results w
               = Some (results @ rs, w') \<and> map track rs = drop (nat k) tracks"
proof (induction "nat (int (length tracks) - k)" arbitrary: k results w rule: less_induct)
  case less
  let ?h = "new_handler cfg ext"
  have cfg: "MAX_CONCURRENT_SEARCHES (config ?h) = Finite c"
    using mc by (simp add: new_handler_def)
  show ?case
  proof (cases "k < int (length tracks)")
    case False
    with less.prems have "drop (nat k) tracks = []" by simp
    with False show ?thesis
      by (subst waterfall_loop.simps) simp
  next
    case True
    obtain ps w1 where sb: "start_batch ?h (slice tracks k (k + c)) w = (ps, w1)"
      by (cases "start_batch ?h (slice tracks k (k + c)) w")
    with track_start_batch[of cfg ext "slice tracks k (k + c)" w]
    have tr: "map track ps = slice tracks k (k + c)" by simp
    then have "length ps = length (slice tracks k (k + c))"
      by (metis length_map)
    with sch have "completion_order (schedule (Finite k)) (length ps)" by simp
    then have pa: "Promise_all (schedule (Finite k)) ps = Some ps"
      by (rule Promise_all_complete)
    have "nat (int (length tracks) - (k + c)) < nat (int (length tracks) - k)"
      using True mc by simp
    moreover have "0 \<le> k + c" using less.prems mc by simp
    ultimately obtain rs w' where
      rec: "waterfall_loop ?h schedule tracks (Finite (k + c)) (results @ ps) w1
              = Some ((results @ ps) @ rs, w')"
      and rs: "map track rs = drop (nat (k + c)) tracks"
      using less.hyps[of "k + c" "results @ ps" w1] by blast
    have "waterfall_loop ?h schedule tracks (Finite k) results w = Some (results @ (ps @ rs), w')"
      by (subst waterfall_loop.simps) (simp add: True cfg sb pa rec)
    moreover have "map track (ps @ rs) = drop (nat k) tracks"
    proof -
      have "nat (k + c) = nat k + nat c" using less.prems mc by (simp add: nat_add_distrib)
      then have "drop (nat (k + c)) tracks = drop (nat c) (drop (nat k) tracks)"
        by (simp add: add.commute)
      with rs have "map track rs = drop (nat c) (drop (nat k) tracks)" by (simp only:)
      moreover from tr slice_batch[OF less.prems True mc(2)]
      have "map track ps = take (nat c) (drop (nat k) tracks)" by (simp only:)
      ultimately have "map track (ps @ rs)
          = take (nat c) (drop (nat k) tracks) @ drop (nat c) (drop (nat k) tracks)"
        by (simp only: map_append)
      then show ?thesis by (simp only: append_take_drop_id)
    qed
    ultimately show ?thesis by blast
  qed
qed

text \<open>
  With a positive \<open>MAX_CONCURRENT_SEARCHES\<close>, and whatever the order in which the
  searches of each batch finish, \<open>searchTracksWithWaterfall\<close> returns: its result
  has the length of the track list, and the result at each position carries the
  track at that position.
\<close>

lemma searchTracksWithWaterfall_keeps_order:
  assumes "MAX_CONCURRENT_SEARCHES cfg = Finite c" and "0 < c"
    and "\<forall>k. completion_order (schedule (Finite k)) (length (slice tracks k (k + c)))"
  shows "\<exists>results w'.
           searchTracksWithWaterfall (new_handler cfg ext) schedule tracks w = Some (results, w')
           \<and> length results = length tracks
           \<and> (\<forall>i < length tracks. track (results ! i) = tracks ! i)"
proof -
  from waterfall_loop_total[OF assms, of 0 ext "[]" w]
  obtain rs w' where
    run: "waterfall_loop (new_handler cfg ext) schedule tracks (Finite 0) [] w = Some (rs, w')"
    and tr: "map track rs = tracks"
    by auto
  from tr have "length rs = length tracks" by (metis length_map)
  moreover from tr have "\<forall>i < length tracks. track (rs ! i) = tracks ! i"
    by (metis length_map nth_map)
  ultimately show ?thesis using run by (simp add: searchTracksWithWaterfall_def)
qed

lemma searchTracksWithWaterfall_keeps_order_example:
  "\<exists>results w'.
      searchTracksWithWaterfall (new_handler example_config example_externals)
          (last_first example_tracks (Finite 3)) example_tracks (fresh_world offline)
        = Some (results, w')
      \<and> length results = length example_tracks
      \<and> (\<forall>i < length example_tracks. track (results ! i) = example_tracks ! i)"
proof -
  have c: "MAX_CONCURRENT_SEARCHES example_config = Finite 3"
    by (simp add: example_config_def)
  have "\<forall>k. completion_order (last_first example_tracks (Finite 3) (Finite k))
          (length (slice example_tracks k (k + 3)))"
    by (simp add: completion_order_def last_first_def)
  from searchTracksWithWaterfall_keeps_order[OF c _ this, of example_externals
      "fresh_world offline"]
  show ?thesis by simp
qed

text \<open>
  When \<open>MAX_CONCURRENT_SEARCHES\<close> is zero or negative and tracks remain, the
  counter never reaches the length of the list: the loop does not return.
\<close>

lemma waterfall_loop_Some_bound:
  assumes "waterfall_loop h schedule tracks i results w = Some y"
  shows "\<not> (\<exists>c k. MAX_CONCURRENT_SEARCHES (config h) = Finite c \<and> c \<le> 0
                 \<and> i = Finite k \<and> k < int (length tracks))"
proof (rule waterfall_loop.raw_induct
    [where P = "\<lambda>h schedule tracks i results w y.
                  \<not> (\<exists>c k. MAX_CONCURRENT_SEARCHES (config h) = Finite c \<and> c \<le> 0
                           \<and> i = Finite k \<and> k < int (length tracks))",
     OF _ assms])
  fix loop h schedule tracks i results w y
  assume IH: "\<And>h schedule tracks i results w y.
      loop h schedule tracks i results w = Some y \<Longrightarrow>
      \<not> (\<exists>c k. MAX_CONCURRENT_SEARCHES (config h) = Finite c \<and> c \<le> 0
               \<and> i = Finite k \<and> k < int (length tracks))"
    and body: "(if js_less i (Finite (int (length tracks)))
      then case start_batch h
                  (slice tracks (to_integer i)
                     (to_integer (js_add i (MAX_CONCURRENT_SEARCHES (config h))))) w of
           (batchPromises, w1) \<Rightarrow>
             (case Promise_all (schedule i) batchPromises of
                None \<Rightarrow> None
              | Some batchResults \<Rightarrow>
                  loop h schedule tracks (js_add i (MAX_CONCURRENT_SEARCHES (config h)))
                    (results @ batchResults) w1)
      else Some (results, w)) = Some y"
  show "\<not> (\<exists>c k. MAX_CONCURRENT_SEARCHES (config h) = Finite c \<and> c \<le> 0
                 \<and> i = Finite k \<and> k < int (length tracks))"
  proof
    assume "\<exists>c k. MAX_CONCURRENT_SEARCHES (config h) = Finite c \<and> c \<le> 0
                 \<and> i = Finite k \<and> k < int (length tracks)"
    then obtain c k where a: "MAX_CONCURRENT_SEARCHES (config h) = Finite c" "c \<le> 0"
        "i = Finite k" "k < int (length tracks)"
      by blast
    with body obtain w1 rs where
      "loop h schedule tracks (Finite (k + c)) (results @ rs) w1 = Some y"
      by (auto split: prod.splits option.splits)
    from IH[OF this] a show False by simp
  qed
qed

lemma waterfall_loop_diverges:
  "MAX_CONCURRENT_SEARCHES (config h) = Finite c \<Longrightarrow> c \<le> 0 \<Longrightarrow> k < int (length tracks) \<Longrightarrow>
   waterfall_loop h schedule tracks (Finite k) results w = None"
  using waterfall_loop_Some_bound[of h schedule tracks "Finite k" results w]
  by (cases "waterfall_loop h schedule tracks (Finite k) results w") auto

text \<open>
  With a negative \<open>MAX_CONCURRENT_SEARCHES\<close> the first round of that loop is not
  empty either: for \<open>-1\<close> its batch is \<open>tracks.slice(0, -1)\<close>, all tracks but the
  last, and their searches are started.
\<close>

lemma negative_concurrency_first_batch:
  "slice example_tracks (to_integer (Finite 0)) (to_integer (js_add (Finite 0) (Finite (- 1))))
     = butlast example_tracks"
  by (simp add: slice_def example_tracks_def)




text \<open>
  Claim C6, as amended. For an empty track list the function returns the empty
  result list at once, whatever the handler and its \<open>MAX_CONCURRENT_SEARCHES\<close>:
  nothing is thrown, and the world is the one it started in, so no request was
  sent, no timer set and no search started.
\<close>

theorem searchTracksWithWaterfall_empty:
  "searchTracksWithWaterfall h schedule [] w = Some ([], w)"
  unfolding searchTracksWithWaterfall_def
  by (subst waterfall_loop.simps) simp

text \<open>
  Claim C6 as stated fails on both of its inputs. The empty track list is answered
  with a result, not an error; and with \<open>MAX_CONCURRENT_SEARCHES\<close> 0 and four
  tracks the loop never ends, so that nothing at all comes back.
\<close>

theorem no_fail_fast:
  "searchTracksWithWaterfall (new_handler example_config example_externals)
       (last_first [] (Finite 3)) [] (fresh_world offline) = Some ([], fresh_world offline)
   \<and> searchTracksWithWaterfall
         (new_handler (example_config\<lparr>MAX_CONCURRENT_SEARCHES := Finite 0\<rparr>)
            example_externals)
         (last_first example_tracks (Finite 0)) example_tracks (fresh_world offline) = None"
proof -
  have "searchTracksWithWaterfall (new_handler example_config example_externals)
       (last_first [] (Finite 3)) [] (fresh_world offline) = Some ([], fresh_world offline)"
    unfolding searchTracksWithWaterfall_def
    by (subst waterfall_loop.simps) simp
  moreover have "searchTracksWithWaterfall
         (new_handler (example_config\<lparr>MAX_CONCURRENT_SEARCHES := Finite 0\<rparr>)
            example_externals)
         (last_first example_tracks (Finite 0)) example_tracks (fresh_world offline) = None"
    unfolding searchTracksWithWaterfall_def
    by (rule waterfall_loop_diverges[of _ 0]) (simp_all add: new_handler_def example_tracks_def)
  ultimately show ?thesis by simp
qed

subsection \<open>The invariant of the results\<close>

lemma try_attempt_Candidate:
  assumes "try_attempt cfg ext t q w = (Candidate r, w1)"
  shows "SearchResult_invariant r \<and> (urls_present (replies w) \<longrightarrow> downloadUrl r \<noteq> Some [])"
  using assms
  by (auto simp: try_attempt_def followRedirect_def fetch_def SearchResult_invariant_def
      provider_ids_def urls_present_def
      split: sum.splits prod.splits option.splits if_splits)

lemma invariant_not_found [simp]:
  "SearchResult_invariant (not_found t e)" "downloadUrl (not_found t e) = None"
  by (simp_all add: SearchResult_invariant_def not_found_def)

lemma search_attempts_invariant:
  "SearchResult_invariant (fst (search_attempts cfg ext t q as w))
   \<and> (urls_present (replies w) \<longrightarrow> downloadUrl (fst (search_attempts cfg ext t q as w)) \<noteq> Some [])"
proof (induction as arbitrary: w)
  case Nil
  show ?case by simp
next
  case (Cons a as)
  obtain out w1 where ta: "try_attempt cfg ext t q w = (out, w1)"
    by (cases "try_attempt cfg ext t q w")
  then have rp: "replies w1 = replies w"
    using replies_try_attempt[of cfg ext t q w] by simp
  show ?case
  proof (cases out)
    case (Candidate r)
    with ta try_attempt_Candidate[of cfg ext t q w r w1] show ?thesis by simp
  next
    case NoCandidate
    with ta rp Cons.IH[of w1] show ?thesis by simp
  next
    case (Raised e)
    have "replies (delay (1000 * 2 ^ a) w1) = replies w"
      using rp by (simp add: delay_def setTimeout_def emit_def)
    with Raised ta Cons.IH[of "delay (1000 * 2 ^ a) w1"] show ?thesis by simp
  qed
qed

lemma searchSingleTrack_invariant:
  "SearchResult_invariant (fst (searchSingleTrack (new_handler cfg ext) t w))
   \<and> (urls_present (replies w) \<longrightarrow>
        downloadUrl (fst (searchSingleTrack (new_handler cfg ext) t w)) \<noteq> Some [])
   \<and> replies (snd (snd (searchSingleTrack (new_handler cfg ext) t w))) = replies w"
proof -
  obtain r1 w1 where ns: "NotSliderService_search cfg ext t (throttle ''notslider'' w) = (r1, w1)"
    by (cases "NotSliderService_search cfg ext t (throttle ''notslider'' w)")
  have "replies (snd (NotSliderService_search cfg ext t (throttle ''notslider'' w))) = replies w"
    by (simp add: NotSliderService_search_def)
  with ns have rp: "replies w1 = replies w" by simp
  from search_attempts_invariant[of cfg ext t "artist t @ '' - '' @ title t"
      "[0..<retryAttempts]" "throttle ''notslider'' w"] ns
  have "SearchResult_invariant r1 \<and> (urls_present (replies w) \<longrightarrow> downloadUrl r1 \<noteq> Some [])"
    by (simp add: NotSliderService_search_def)
  with ns rp show ?thesis
    by (simp add: searchSingleTrack_new_handler)
qed

lemma start_batch_invariant:
  "(\<forall>r \<in> set (fst (start_batch (new_handler cfg ext) ts w)).
      SearchResult_invariant r \<and> (urls_present (replies w) \<longrightarrow> downloadUrl r \<noteq> Some []))
   \<and> replies (snd (start_batch (new_handler cfg ext) ts w)) = replies w"
proof (induction ts arbitrary: w)
  case Nil
  show ?case by simp
next
  case (Cons t ts)
  obtain r cs w1 where s: "searchSingleTrack (new_handler cfg ext) t w = (r, cs, w1)"
    by (cases "searchSingleTrack (new_handler cfg ext) t w")
  with searchSingleTrack_invariant[of cfg ext t w]
  have r: "SearchResult_invariant r" "urls_present (replies w) \<longrightarrow> downloadUrl r \<noteq> Some []"
    and w1: "replies w1 = replies w"
    by simp_all
  with s Cons.IH[of w1] show ?case by (auto split: prod.splits)
qed

text \<open>A combined promise that settles yields the values in the order of the promises.\<close>

lemma Promise_all_Some:
  assumes "Promise_all order ps = Some vs"
  shows "vs = ps"
proof -
  let ?slots = "foldl (\<lambda>vs i. if i < length ps then vs[i := Some (ps ! i)] else vs)
                  (replicate (length ps) None) order"
  from assms have full: "None \<notin> set ?slots" and vs: "vs = map the ?slots"
    by (auto simp: Promise_all_def Let_def split: if_splits)
  have len: "length ?slots = length ps"
  proof (cases ps)
    case Nil
    then show ?thesis by (induction order) simp_all
  next
    case (Cons p ps')
    then have "0 < length ps" by simp
    with fill_slots[of "replicate (length ps) None" ps 0 order] show ?thesis by simp
  qed
  have "?slots ! j = Some (ps ! j)" if j: "j < length ps" for j
  proof -
    from j len have "?slots ! j \<in> set ?slots" by simp
    with full have "?slots ! j \<noteq> None" by metis
    with j fill_slots[of "replicate (length ps) None" ps j order] show ?thesis
      by (simp split: if_splits)
  qed
  with len have "?slots = map Some ps"
    by (simp add: list_eq_iff_nth_eq)
  with vs show ?thesis by (simp add: comp_def)
qed

lemma waterfall_loop_invariant:
  assumes "waterfall_loop h schedule tracks i results w = Some y"
  shows "h = new_handler cfg ext \<longrightarrow>
         (\<forall>r \<in> set results. SearchResult_invariant r
             \<and> (urls_present (replies w) \<longrightarrow> downloadUrl r \<noteq> Some [])) \<longrightarrow>
         (\<forall>r \<in> set (fst y). SearchResult_invariant r
             \<and> (urls_present (replies w) \<longrightarrow> downloadUrl r \<noteq> Some []))"
proof (rule waterfall_loop.raw_induct
    [where P = "\<lambda>h schedule tracks i results w y. h = new_handler cfg ext \<longrightarrow>
         (\<forall>r \<in> set results. SearchResult_invariant r
             \<and> (urls_present (replies w) \<longrightarrow> downloadUrl r \<noteq> Some [])) \<longrightarrow>
         (\<forall>r \<in> set (fst y). SearchResult_invariant r
             \<and> (urls_present (replies w) \<longrightarrow> downloadUrl r \<noteq> Some []))",
     OF _ assms])
  fix loop h schedule tracks i results w y
  assume IH: "\<And>h schedule tracks i results w y.
      loop h schedule tracks i results w = Some y \<Longrightarrow>
      h = new_handler cfg ext \<longrightarrow>
         (\<forall>r \<in> set results. SearchResult_invariant r
             \<and> (urls_present (replies w) \<longrightarrow> downloadUrl r \<noteq> Some [])) \<longrightarrow>
         (\<forall>r \<in> set (fst y). SearchResult_invariant r
             \<and> (urls_present (replies w) \<longrightarrow> downloadUrl r \<noteq> Some []))"
    and body: "(if js_less i (Finite (int (length tracks)))
      then case start_batch h
                  (slice tracks (to_integer i)
                     (to_integer (js_add i (MAX_CONCURRENT_SEARCHES (config h))))) w of
           (batchPromises, w1) \<Rightarrow>
             (case Promise_all (schedule i) batchPromises of
                None \<Rightarrow> None
              | Some batchResults \<Rightarrow>
                  loop h schedule tracks (js_add i (MAX_CONCURRENT_SEARCHES (config h)))
                    (results @ batchResults) w1)
      else Some (results, w)) = Some y"
  show "h = new_handler cfg ext \<longrightarrow>
         (\<forall>r \<in> set results. SearchResult_invariant r
             \<and> (urls_present (replies w) \<longrightarrow> downloadUrl r \<noteq> Some [])) \<longrightarrow>
         (\<forall>r \<in> set (fst y). SearchResult_invariant r
             \<and> (urls_present (replies w) \<longrightarrow> downloadUrl r \<noteq> Some []))"
  proof (intro impI)
    assume h: "h = new_handler cfg ext"
      and old: "\<forall>r \<in> set results. SearchResult_invariant r
             \<and> (urls_present (replies w) \<longrightarrow> downloadUrl r \<noteq> Some [])"
    show "\<forall>r \<in> set (fst y). SearchResult_invariant r
             \<and> (urls_present (replies w) \<longrightarrow> downloadUrl r \<noteq> Some [])"
    proof (cases "js_less i (Finite (int (length tracks)))")
      case False
      with body old show ?thesis by auto
    next
      case True
      let ?batch = "slice tracks (to_integer i)
                      (to_integer (js_add i (MAX_CONCURRENT_SEARCHES (config h))))"
      obtain ps w1 where sb: "start_batch h ?batch w = (ps, w1)"
        by (cases "start_batch h ?batch w")
      with True body obtain rs where pa: "Promise_all (schedule i) ps = Some rs"
        and rec: "loop h schedule tracks (js_add i (MAX_CONCURRENT_SEARCHES (config h)))
                    (results @ rs) w1 = Some y"
        by (auto split: option.splits)
      from pa have "rs = ps" by (rule Promise_all_Some)
      moreover from sb h start_batch_invariant[of cfg ext ?batch w]
      have "\<forall>r \<in> set ps. SearchResult_invariant r
               \<and> (urls_present (replies w) \<longrightarrow> downloadUrl r \<noteq> Some [])"
        and w1: "replies w1 = replies w"
        by simp_all
      ultimately have "\<forall>r \<in> set (results @ rs). SearchResult_invariant r
             \<and> (urls_present (replies w1) \<longrightarrow> downloadUrl r \<noteq> Some [])"
        using old by auto
      with IH[OF rec] h w1 show ?thesis by simp
    qed
  qed
qed

text \<open>
  Claim C7. Every result that \<open>searchTracksWithWaterfall\<close> returns, for the
  handler with the services of the repository, is found exactly when it has a
  download URL and has a source exactly when it is found, and the source of a
  found result is one of the three providers. The download URL of a found result
  is the URL of a response or the link that was followed, so it is not empty as
  long as the responses of the network carry their URL.
\<close>

theorem search_results_satisfy_invariant:
  assumes "searchTracksWithWaterfall (new_handler cfg ext) schedule tracks w = Some (results, w')"
    and "r \<in> set results"
  shows "(found r \<longleftrightarrow> downloadUrl r \<noteq> None)
         \<and> (source r \<noteq> None \<longleftrightarrow> found r)
         \<and> (found r \<longrightarrow> (\<exists>p \<in> set provider_ids. source r = Some p))
         \<and> (urls_present (replies w) \<longrightarrow> downloadUrl r \<noteq> Some [])"
  using waterfall_loop_invariant[of "new_handler cfg ext" schedule tracks "Finite 0" "[]" w
      "(results, w')" cfg ext]
    assms
  by (simp add: searchTracksWithWaterfall_def SearchResult_invariant_def)

text \<open>A track list that fits into one batch.\<close>

lemma length_start_batch: "length (fst (start_batch h ts w)) = length ts"
proof (induction ts arbitrary: w)
  case Nil
  show ?case by simp
next
  case (Cons t ts)
  obtain r cs w1 where s: "searchSingleTrack h t w = (r, cs, w1)"
    by (cases "searchSingleTrack h t w")
  with Cons.IH[of w1] show ?case
    by (cases "start_batch h ts w1") simp
qed

lemma one_batch:
  assumes "tracks \<noteq> []" and "MAX_CONCURRENT_SEARCHES (config h) = Finite c"
    and "int (length tracks) \<le> c"
    and "completion_order (schedule (Finite 0)) (length tracks)"
  shows "searchTracksWithWaterfall h schedule tracks w = Some (start_batch h tracks w)"
proof -
  from assms(1,3) have sl: "slice tracks 0 (0 + c) = tracks"
    by (simp add: slice_def Let_def min_def max_def)
  obtain ps w1 where sb: "start_batch h tracks w = (ps, w1)"
    by (cases "start_batch h tracks w")
  with length_start_batch[of h tracks w] have "length ps = length tracks" by simp
  with assms(4) have pa: "Promise_all (schedule (Finite 0)) ps = Some ps"
    by (simp add: Promise_all_complete)
  have "waterfall_loop h schedule tracks (Finite (0 + c)) ([] @ ps) w1 = Some (ps, w1)"
    using assms(3) by (subst waterfall_loop.simps) simp
  with assms(1,2) sl sb pa show ?thesis
    unfolding searchTracksWithWaterfall_def
    by (subst waterfall_loop.simps) simp
qed

text \<open>
  One track on a network whose pages offer a link: the result is found, and it
  has the source and the URL that the invariant asks for.
\<close>

theorem search_results_satisfy_invariant_witness:
  "urls_present with_link
   \<and> (\<exists>r w'. searchTracksWithWaterfall (new_handler example_config example_externals)
                (last_first [example_track 1 ''Daft Punk'' ''One More Time''] (Finite 3))
                [example_track 1 ''Daft Punk'' ''One More Time''] (fresh_world with_link)
              = Some ([r], w')
        \<and> found r \<and> downloadUrl r \<noteq> None \<and> source r \<noteq> None
        \<and> (\<exists>p \<in> set provider_ids. source r = Some p)
        \<and> downloadUrl r \<noteq> Some [])"
proof -
  let ?h = "new_handler example_config example_externals"
  let ?t = "example_track 1 ''Daft Punk'' ''One More Time''"
  let ?s = "last_first [?t] (Finite 3)"
  let ?w = "fresh_world with_link"
  have up: "urls_present with_link"
    by (simp add: urls_present_def with_link_def page_def)
  have "searchTracksWithWaterfall ?h ?s [?t] ?w = Some (start_batch ?h [?t] ?w)"
    by (rule one_batch[of _ _ 3])
      (simp_all add: new_handler_def example_config_def completion_order_def last_first_def
        slice_def)
  then obtain r w' where run: "searchTracksWithWaterfall ?h ?s [?t] ?w = Some ([r], w')"
    and r: "r = fst (searchSingleTrack ?h ?t ?w)"
    by (cases "searchSingleTrack ?h ?t ?w") simp
  have "replies (throttle ''notslider'' ?w) = with_link"
    by (simp add: fresh_world_def)
  from NotSlider_with_link[OF this, of ?t] r have f: "found r"
    by (cases "NotSliderService_search example_config example_externals ?t
                 (throttle ''notslider'' ?w)")
      (simp add: searchSingleTrack_new_handler)
  have "replies ?w = with_link" by (simp add: fresh_world_def)
  with search_results_satisfy_invariant[OF run, of r] f up
  have "downloadUrl r \<noteq> None \<and> source r \<noteq> None
        \<and> (\<exists>p \<in> set provider_ids. source r = Some p) \<and> downloadUrl r \<noteq> Some []"
    by simp
  with up run f show ?thesis by blast
qed

section \<open>Results: the cleaned tracks\<close>

lemma transform_item_valid:
  "transform_item svc i item = Inr t \<Longrightarrow>
   isValid t = (certainty t \<ge> 1 / 2) \<and> 0 \<le> certainty t \<and> certainty t \<le> 1"
  by (auto simp: transform_item_def Let_def split: if_splits option.splits json.splits)

lemma map_items_all:
  "map_items f i xs = Inr ys \<Longrightarrow> y \<in> set ys \<Longrightarrow> \<exists>j x. f j x = Inr y"
proof (induction xs arbitrary: i ys)
  case Nil
  then show ?case by simp
next
  case (Cons x xs)
  then show ?case
    by (fastforce split: sum.splits)
qed

lemma parseTracklist_valid:
  assumes "parseTracklist svc raw = Inr ts" and "t \<in> set ts"
  shows "isValid t = (certainty t \<ge> 1 / 2) \<and> 0 \<le> certainty t \<and> certainty t \<le> 1"
proof -
  from assms(1) obtain items where "map_items (transform_item svc) 0 items = Inr ts"
    by (auto simp: parseTracklist_def validateAndTransform_def split: sum.splits json.splits)
  from map_items_all[OF this assms(2)] obtain j x where "transform_item svc j x = Inr t"
    by blast
  then show ?thesis by (rule transform_item_valid)
qed

lemma example_cleaned:
  "clean_tracks example_service False example_raw
     = Inr [\<lparr>index = 1, original = ''Daft Punk - One More Time'', artist = ''Daft Punk'',
             title = ''One More Time'', remixInfo = None, certainty = 2 / 5, isValid = False\<rparr>,
            \<lparr>index = 2, original = ''Moby - Porcelain'', artist = ''Moby'',
             title = ''Porcelain'', remixInfo = None, certainty = 19 / 20, isValid = True\<rparr>]"
  by (simp add: clean_tracks_def example_raw_def example_service_def parseTracklist_def
      validateAndTransform_def transform_item_def)

lemma example_skipped:
  "clean_tracks example_service True example_raw
     = Inr [\<lparr>index = 1, original = ''Daft Punk - One More Time'', artist = ''Daft Punk'',
             title = ''One More Time'', remixInfo = None, certainty = 3 / 10, isValid = True\<rparr>,
            \<lparr>index = 2, original = ''Moby - Porcelain'', artist = ''Moby'',
             title = ''Porcelain'', remixInfo = None, certainty = 3 / 10, isValid = True\<rparr>]"
  by (simp add: clean_tracks_def example_raw_def raw_to_cleaned_def split_def or_else_def)

text \<open>
  Claim C4, as amended. Every track that the cleanup service produces has a
  certainty between 0 and 1 and is valid exactly when its certainty is at least
  0.5. Every track that the handler builds itself, when the cleanup is skipped,
  has the certainty 0.3 and is valid.
\<close>

theorem cleaned_track_validity:
  assumes "clean_tracks svc skipLLMCleanup rawTracks = Inr ts" and "t \<in> set ts"
  shows "if skipLLMCleanup then certainty t = 3 / 10 \<and> isValid t
         else isValid t = (certainty t \<ge> 1 / 2) \<and> 0 \<le> certainty t \<and> certainty t \<le> 1"
proof (cases skipLLMCleanup)
  case True
  with assms show ?thesis
    by (auto simp: clean_tracks_def raw_to_cleaned_def)
next
  case False
  with assms parseTracklist_valid[of svc "join (map rawText rawTracks) [CHR 0x0A]" ts t]
  show ?thesis by (simp add: clean_tracks_def)
qed

text \<open>Both paths on the example: the first track of each list.\<close>

theorem cleaned_track_validity_witness:
  "(\<exists>ts. clean_tracks example_service True example_raw = Inr ts \<and> ts \<noteq> []
          \<and> certainty (hd ts) = 3 / 10 \<and> isValid (hd ts))
   \<and> (\<exists>ts. clean_tracks example_service False example_raw = Inr ts \<and> ts \<noteq> []
          \<and> isValid (hd ts) = (certainty (hd ts) \<ge> 1 / 2)
          \<and> 0 \<le> certainty (hd ts) \<and> certainty (hd ts) \<le> 1)"
proof -
  obtain ts where ts: "clean_tracks example_service True example_raw = Inr ts" and "ts \<noteq> []"
    using example_skipped by simp
  then have "hd ts \<in> set ts" by simp
  from cleaned_track_validity[OF ts this] have "certainty (hd ts) = 3 / 10 \<and> isValid (hd ts)"
    by simp
  with ts \<open>ts \<noteq> []\<close> have skipped: "\<exists>ts. clean_tracks example_service True example_raw = Inr ts
      \<and> ts \<noteq> [] \<and> certainty (hd ts) = 3 / 10 \<and> isValid (hd ts)"
    by blast
  obtain us where us: "clean_tracks example_service False example_raw = Inr us" and "us \<noteq> []"
    using example_cleaned by simp
  then have "hd us \<in> set us" by simp
  from cleaned_track_validity[OF us this]
  have "isValid (hd us) = (certainty (hd us) \<ge> 1 / 2)
        \<and> 0 \<le> certainty (hd us) \<and> certainty (hd us) \<le> 1"
    by simp
  with us \<open>us \<noteq> []\<close> have "\<exists>ts. clean_tracks example_service False example_raw = Inr ts
      \<and> ts \<noteq> [] \<and> isValid (hd ts) = (certainty (hd ts) \<ge> 1 / 2)
      \<and> 0 \<le> certainty (hd ts) \<and> certainty (hd ts) \<le> 1"
    by blast
  with skipped show ?thesis by blast
qed

text \<open>
  Claim C4 as stated fails on the path that skips the cleanup: the tracks it
  builds are valid with a certainty of 0.3, which is below 0.5.
\<close>

theorem skipped_cleanup_valid_below_half:
  "clean_tracks example_service True example_raw
     = Inr (map raw_to_cleaned example_raw)
   \<and> isValid (raw_to_cleaned (example_raw ! 0))
   \<and> \<not> certainty (raw_to_cleaned (example_raw ! 0)) \<ge> 1 / 2"
  by (simp add: clean_tracks_def example_raw_def raw_to_cleaned_def)

section \<open>Results: the summary\<close>

text \<open>
  Claim C10. For a list of results none of which is found, the empty list
  included, the summary has the average quality \<open>unknown\<close> and a count of 0 for
  each of the three sources; no track counts as found, and every one as failed.
\<close>

theorem no_found_summary:
  assumes "\<forall>r \<in> set results. \<not> found r"
  shows "averageQuality (calculateSummary results time) = unknown
         \<and> sourcesUsed (calculateSummary results time)
             = \<lparr>su_notslider = 0, su_soundcloud = 0, su_youtube = 0\<rparr>
         \<and> foundTracks (calculateSummary results time) = 0
         \<and> failedTracks (calculateSummary results time) = length results"
proof -
  from assms have "filter found results = []" "filter (\<lambda>r. \<not> found r) results = results"
    by (simp_all add: filter_empty_conv)
  then show ?thesis by (simp add: calculateSummary_def)
qed

theorem no_found_summary_witness:
  "averageQuality (calculateSummary
       [not_found (example_track 1 ''Daft Punk'' ''One More Time'') ''No 320kbps MP3 found'',
        not_found (example_track 2 ''Moby'' ''Porcelain'') ''Search failed: timeout''] 1500)
     = unknown
   \<and> sourcesUsed (calculateSummary
       [not_found (example_track 1 ''Daft Punk'' ''One More Time'') ''No 320kbps MP3 found'',
        not_found (example_track 2 ''Moby'' ''Porcelain'') ''Search failed: timeout''] 1500)
     = \<lparr>su_notslider = 0, su_soundcloud = 0, su_youtube = 0\<rparr>
   \<and> averageQuality (calculateSummary [] 0) = unknown"
proof -
  have "\<forall>r \<in> set [not_found (example_track 1 ''Daft Punk'' ''One More Time'') ''No 320kbps MP3 found'',
                  not_found (example_track 2 ''Moby'' ''Porcelain'') ''Search failed: timeout''].
          \<not> found r"
    by (simp add: not_found_def)
  from no_found_summary[OF this, of 1500] no_found_summary[of "[]" 0]
  show ?thesis by simp
qed

text \<open>The summary of the specification's example: four found, two failed.\<close>

lemma summary_of_six:
  "calculateSummary
     [found_by NotSlider t\<lparr>quality := Some kbps320\<rparr>, found_by NotSlider t\<lparr>quality := Some kbps256\<rparr>,
      not_found t ''a'', found_by NotSlider t\<lparr>quality := Some kbps320\<rparr>, not_found t ''b'',
      found_by NotSlider t\<lparr>quality := Some kbps320\<rparr>] time
   = \<lparr>totalTracks = 6, foundTracks = 4, failedTracks = 2, processingTime = time,
      sourcesUsed = \<lparr>su_notslider = 4, su_soundcloud = 0, su_youtube = 0\<rparr>,
      averageQuality = kbps320, estimatedCost = 8 / 10000, modelUsed = ''gpt-4o-mini''\<rparr>"
  by (simp add: calculateSummary_def found_by_def not_found_def count_of_def)


end
